theory Spec2Isabelle
  imports Main "HOL-Library.Sublist"
begin

section \<open>The codebase overview panel (components/CodebaseOverviewModal.tsx)\<close>

text \<open>
  The component keeps three React state variables, resets them when the panel is closed,
  runs one asynchronous handler \<^verbatim>\<open>handleGenerate\<close> with two suspension points
  (the file fetch and the generation request), and renders one of four regions.
  The two services and the markdown engine are external: their results enter the model
  as the values the awaited promises settle with, and the engine as an optional function.
\<close>

subsection \<open>Values\<close>

text \<open>An element of \<^verbatim>\<open>allFiles\<close>: the handler reads its path and its content.\<close>

record fetched_file =
  path :: string
  content :: string

text \<open>
  What \<^verbatim>\<open>catch (err)\<close> can receive: an instance of \<^verbatim>\<open>Error\<close> with its message,
  or any other thrown value.
\<close>

datatype thrown = ErrorObject string | OtherValue

text \<open>How an awaited promise settles.\<close>

datatype 'a settled = Resolved 'a | Rejected thrown

text \<open>The three \<^verbatim>\<open>useState\<close> cells (lines 30 to 32).\<close>

record ui_state =
  isLoading :: bool
  overviewContent :: string
  error :: "string option"

definition initial_state :: ui_state where
  "initial_state = \<lparr>isLoading = False, overviewContent = [], error = None\<rparr>"

subsection \<open>The reset effect (lines 34 to 41)\<close>

definition useEffect_isOpen :: "bool \<Rightarrow> ui_state \<Rightarrow> ui_state" where
  "useEffect_isOpen isOpen st =
     (if \<not> isOpen
      then st\<lparr>overviewContent := [], error := None, isLoading := False\<rparr>
      else st)"

subsection \<open>The assembled document (lines 55 to 64)\<close>

definition separator :: string where
  "separator =
     ''// ===================================================================================''"

text \<open>The template literal: it opens with a line break and closes with one.\<close>

definition block :: "fetched_file \<Rightarrow> string" where
  "block file =
     ''\<newline>// Path: '' @ path file @ ''\<newline>'' @
     separator @ ''\<newline>'' @
     ''\<newline>'' @
     content file @ ''\<newline>'' @
     ''\<newline>'' @
     separator @ ''\<newline>''"

text \<open>\<^verbatim>\<open>Array.prototype.join\<close> on strings.\<close>

fun join :: "string \<Rightarrow> string list \<Rightarrow> string" where
  "join sep [] = []"
| "join sep [x] = x"
| "join sep (x # y # ys) = x @ sep @ join sep (y # ys)"

definition concatenatedContent :: "fetched_file list \<Rightarrow> string" where
  "concatenatedContent allFiles = join ''\<newline>'' (map block allFiles)"

subsection \<open>Reading a document line by line\<close>

text \<open>
  The lines of a text, as splitting at every line break gives them. The functions of
  this subsection are not in the source; the properties of the document are stated
  with them.
\<close>

fun split_lines :: "string \<Rightarrow> string list" where
  "split_lines [] = [[]]"
| "split_lines (c # cs) =
     (if c = CHR ''\<newline>'' then [] # split_lines cs
      else (case split_lines cs of [] \<Rightarrow> [[c]] | l # ls \<Rightarrow> (c # l) # ls))"

definition header :: "fetched_file \<Rightarrow> string" where
  "header file = ''// Path: '' @ path file"

definition block_lines :: "fetched_file \<Rightarrow> string list" where
  "block_lines file =
     [[]] @ split_lines (header file) @ [separator, []] @
     split_lines (content file) @ [[], separator, []]"

text \<open>What a block puts before the content, and after it.\<close>

definition block_head :: "fetched_file \<Rightarrow> string" where
  "block_head file =
     ''\<newline>// Path: '' @ path file @ ''\<newline>'' @ separator @ ''\<newline>\<newline>''"

definition block_tail :: string where
  "block_tail = ''\<newline>\<newline>'' @ separator @ ''\<newline>''"

subsection \<open>The handler, cut at its awaits (lines 43 to 74)\<close>

text \<open>Lines 44 to 46, before the first await.\<close>

definition handleGenerate_begin :: "ui_state \<Rightarrow> ui_state" where
  "handleGenerate_begin st = st\<lparr>isLoading := True, error := None, overviewContent := []\<rparr>"

text \<open>Lines 69 and 70.\<close>

definition errorMessage :: "thrown \<Rightarrow> string" where
  "errorMessage err =
     (case err of ErrorObject message \<Rightarrow> message | OtherValue \<Rightarrow> ''An unknown error occurred.'')"

definition handleGenerate_catch :: "thrown \<Rightarrow> ui_state \<Rightarrow> ui_state" where
  "handleGenerate_catch err st =
     st\<lparr>error := Some (''Failed to generate overview: '' @ errorMessage err)\<rparr>"

text \<open>Lines 71 to 73.\<close>

definition handleGenerate_finally :: "ui_state \<Rightarrow> ui_state" where
  "handleGenerate_finally st = st\<lparr>isLoading := False\<rparr>"

text \<open>
  Lines 49 to 66, from the settling of the fetch up to the call of the generation
  service: either something is thrown (\<open>Inl\<close>), or the service is called with the
  assembled document (\<open>Inr\<close>).
\<close>

definition noFilesMessage :: string where
  "noFilesMessage = ''No readable files found in the repository to generate an overview.''"

definition handleGenerate_files :: "fetched_file list settled \<Rightarrow> thrown + string" where
  "handleGenerate_files r =
     (case r of
        Rejected err \<Rightarrow> Inl err
      | Resolved allFiles \<Rightarrow>
          if length allFiles = 0 then Inl (ErrorObject noFilesMessage)
          else Inr (concatenatedContent allFiles))"

text \<open>Lines 66 to 73, from the settling of the generation request to the end.\<close>

definition handleGenerate_overview :: "string settled \<Rightarrow> ui_state \<Rightarrow> ui_state" where
  "handleGenerate_overview r st =
     handleGenerate_finally
       (case r of
          Resolved overview \<Rightarrow> st\<lparr>overviewContent := overview\<rparr>
        | Rejected err \<Rightarrow> handleGenerate_catch err st)"

subsection \<open>Rendering (lines 76 to 131)\<close>

datatype region =
    LoadingIndicator
  | ErrorDisplay string
  | Article string
  | CallToAction

text \<open>Line 76; \<open>marked\<close> is the optional global markdown engine, absent or a parser.\<close>

definition renderedHtml :: "(string \<Rightarrow> string) option \<Rightarrow> ui_state \<Rightarrow> string" where
  "renderedHtml marked st =
     (case marked of
        None \<Rightarrow> []
      | Some parse \<Rightarrow> if overviewContent st \<noteq> [] then parse (overviewContent st) else [])"

text \<open>JavaScript truthiness of a value of type \<^verbatim>\<open>string | null\<close>.\<close>

definition truthy :: "string option \<Rightarrow> bool" where
  "truthy v = (case v of None \<Rightarrow> False | Some s \<Rightarrow> s \<noteq> [])"

text \<open>
  The conditional chain of lines 104 to 131: the spinner, the error box with the text
  of \<open>error\<close>, the article whose inner HTML is \<open>renderedHtml\<close>, or the
  call to action with the button that starts the handler.
\<close>

definition main_region :: "(string \<Rightarrow> string) option \<Rightarrow> ui_state \<Rightarrow> region" where
  "main_region marked st =
     (if isLoading st then LoadingIndicator
      else if truthy (error st) then ErrorDisplay (case error st of Some m \<Rightarrow> m | None \<Rightarrow> [])
      else if overviewContent st \<noteq> [] then Article (renderedHtml marked st)
      else CallToAction)"

text \<open>The component's result: nothing when the panel is closed (lines 78 to 80).\<close>

definition render :: "bool \<Rightarrow> (string \<Rightarrow> string) option \<Rightarrow> ui_state \<Rightarrow> region option" where
  "render isOpen marked st = (if \<not> isOpen then None else Some (main_region marked st))"

subsection \<open>The four lifecycle states the three cells stand for\<close>

datatype GenerationState = Idle | Loading | Success string | Failure string

text \<open>
  The cells are read in the order of the rendering chain: loading first, then a
  non-empty error, then a non-empty overview.
\<close>

definition generationState :: "ui_state \<Rightarrow> GenerationState" where
  "generationState st =
     (if isLoading st then Loading
      else if truthy (error st) then Failure (case error st of Some m \<Rightarrow> m | None \<Rightarrow> [])
      else if overviewContent st \<noteq> [] then Success (overviewContent st)
      else Idle)"

subsection \<open>The component over time\<close>

text \<open>
  Each run of the handler is an attempt; between its awaits other events can happen.
  A continuation of the handler runs to its next await without interruption.
\<close>

datatype phase = AwaitingFiles | AwaitingOverview | Settled

text \<open>
  \<open>marked\<close> is the global engine, \<open>requests\<close> lists the documents the generation
  service was called with, in order.
\<close>

record world =
  isOpen :: bool
  marked :: "(string \<Rightarrow> string) option"
  ui :: ui_state
  attempts :: "phase list"
  requests :: "string list"

text \<open>The component is mounted closed.\<close>

definition mounted :: "(string \<Rightarrow> string) option \<Rightarrow> world" where
  "mounted engine =
     \<lparr>isOpen = False, marked = engine, ui = initial_state, attempts = [], requests = []\<rparr>"

definition view :: "world \<Rightarrow> region option" where
  "view w = render (isOpen w) (marked w) (ui w)"

datatype event =
    SetOpen bool
  | Click
  | FilesSettle nat "fetched_file list settled"
  | OverviewSettle nat "string settled"

text \<open>
  \<open>SetOpen\<close>: the parent changes the \<^verbatim>\<open>isOpen\<close> prop; the effect runs when the prop
  changed. \<open>Click\<close>: the button of the call to action, there only when that region is
  on screen. \<open>FilesSettle i\<close> and \<open>OverviewSettle i\<close>: a promise awaited by attempt
  \<open>i\<close> settles. An event that cannot happen gives \<open>None\<close>.
\<close>

fun step :: "world \<Rightarrow> event \<Rightarrow> world option" where
  "step w (SetOpen b) =
     Some (if b = isOpen w then w else w\<lparr>isOpen := b, ui := useEffect_isOpen b (ui w)\<rparr>)"
| "step w Click =
     (if view w = Some CallToAction
      then Some (w\<lparr>ui := handleGenerate_begin (ui w), attempts := attempts w @ [AwaitingFiles]\<rparr>)
      else None)"
| "step w (FilesSettle i r) =
     (if i < length (attempts w) \<and> attempts w ! i = AwaitingFiles
      then (case handleGenerate_files r of
              Inl err \<Rightarrow>
                Some (w\<lparr>ui := handleGenerate_finally (handleGenerate_catch err (ui w)),
                        attempts := (attempts w)[i := Settled]\<rparr>)
            | Inr document \<Rightarrow>
                Some (w\<lparr>attempts := (attempts w)[i := AwaitingOverview],
                        requests := requests w @ [document]\<rparr>))
      else None)"
| "step w (OverviewSettle i r) =
     (if i < length (attempts w) \<and> attempts w ! i = AwaitingOverview
      then Some (w\<lparr>ui := handleGenerate_overview r (ui w),
                   attempts := (attempts w)[i := Settled]\<rparr>)
      else None)"

fun run :: "world \<Rightarrow> event list \<Rightarrow> world option" where
  "run w [] = Some w"
| "run w (e # es) = (case step w e of None \<Rightarrow> None | Some w' \<Rightarrow> run w' es)"

section \<open>The assembled document\<close>

subsection \<open>Lines\<close>

lemma split_lines_not_Nil: "split_lines s \<noteq> []"
  by (induction s) (auto split: list.splits)

lemma split_lines_append: "split_lines (a @ CHR ''\<newline>'' # b) = split_lines a @ split_lines b"
  by (induction a) (auto simp: split_lines_not_Nil split: list.splits)

lemma split_lines_single: "CHR ''\<newline>'' \<notin> set s \<Longrightarrow> split_lines s = [s]"
  by (induction s) auto

lemma separator_no_newline: "CHR ''\<newline>'' \<notin> set separator"
  by (simp add: separator_def)

lemma split_lines_block: "split_lines (block file) = block_lines file"
proof -
  have "block file = [] @ CHR ''\<newline>'' # (header file @ CHR ''\<newline>'' # (separator @ CHR ''\<newline>'' # ([] @ CHR ''\<newline>'' #
     (content file @ CHR ''\<newline>'' # ([] @ CHR ''\<newline>'' # (separator @ CHR ''\<newline>'' # []))))))"
    by (simp add: block_def header_def)
  then show ?thesis
    by (simp only: split_lines_append block_lines_def split_lines_single[OF separator_no_newline]) simp
qed

lemma join_Cons: "ys \<noteq> [] \<Longrightarrow> join sep (x # ys) = x @ sep @ join sep ys"
  by (cases ys) auto

lemma split_lines_document:
  "split_lines (concatenatedContent (f # fs)) = concat (map block_lines (f # fs))"
proof (induction fs arbitrary: f)
  case Nil
  show ?case by (simp add: concatenatedContent_def split_lines_block)
next
  case (Cons g gs)
  have "concatenatedContent (f # g # gs) = block f @ CHR ''\<newline>'' # concatenatedContent (g # gs)"
    by (simp add: concatenatedContent_def)
  then show ?case
    using Cons.IH[of g] by (simp add: split_lines_append split_lines_block)
qed

lemma block_parts: "block f = block_head f @ content f @ block_tail"
  by (simp add: block_def block_head_def block_tail_def)


lemma document_Cons2:
  "concatenatedContent (f # g # gs) = block f @ CHR ''\<newline>'' # concatenatedContent (g # gs)"
  by (simp add: concatenatedContent_def)

lemma document_starts: "\<exists>rest. concatenatedContent (g # gs) = block g @ rest"
  by (cases gs) (simp_all add: concatenatedContent_def)

lemma sublist_block_document:
  "f \<in> set files \<Longrightarrow> sublist (block f) (concatenatedContent files)"
proof (induction files)
  case Nil
  then show ?case by simp
next
  case (Cons g gs)
  show ?case
  proof (cases gs)
    case Nil
    with Cons.prems show ?thesis by (simp add: concatenatedContent_def)
  next
    case (Cons h hs)
    show ?thesis
    proof (cases "f = g")
      case True
      then show ?thesis unfolding Cons document_Cons2 by simp
    next
      case False
      with Cons.prems have "f \<in> set gs" by simp
      then have "sublist (block f) (concatenatedContent gs)" by (rule Cons.IH)
      then obtain ps ss where "concatenatedContent gs = ps @ block f @ ss"
        by (auto simp: sublist_def)
      then have "concatenatedContent (g # gs) = (block g @ CHR ''\<newline>'' # ps) @ block f @ ss"
        unfolding Cons document_Cons2 by simp
      then show ?thesis unfolding sublist_def by blast
    qed
  qed
qed

lemma sublist_pair_document:
  "Suc i < length files \<Longrightarrow>
     sublist (block (files ! i) @ CHR ''\<newline>'' # block (files ! Suc i)) (concatenatedContent files)"
proof (induction files arbitrary: i)
  case Nil
  then show ?case by simp
next
  case (Cons f fs)
  then obtain g gs where fs: "fs = g # gs" by (cases fs) auto
  show ?case
  proof (cases i)
    case 0
    obtain rest where "concatenatedContent (g # gs) = block g @ rest"
      using document_starts by blast
    then have "concatenatedContent (f # fs) = (block f @ CHR ''\<newline>'' # block g) @ rest"
      unfolding fs document_Cons2 by simp
    then show ?thesis unfolding 0 fs sublist_def by (intro exI[of _ "[]"] exI[of _ rest]) simp
  next
    case (Suc j)
    with Cons.prems have "Suc j < length fs" by simp
    then have "sublist (block (fs ! j) @ CHR ''\<newline>'' # block (fs ! Suc j)) (concatenatedContent fs)"
      by (rule Cons.IH)
    then obtain ps ss where
      "concatenatedContent fs = ps @ (block (fs ! j) @ CHR ''\<newline>'' # block (fs ! Suc j)) @ ss"
      by (auto simp: sublist_def)
    then have "concatenatedContent (f # fs) =
        (block f @ CHR ''\<newline>'' # ps) @ (block (fs ! j) @ CHR ''\<newline>'' # block (fs ! Suc j)) @ ss"
      unfolding fs document_Cons2 by simp
    then show ?thesis unfolding Suc sublist_def
      by (intro exI[of _ "block f @ CHR ''\<newline>'' # ps"] exI[of _ ss]) simp
  qed
qed

lemma separator_not_header: "separator \<noteq> header g"
  by (simp add: separator_def header_def)

lemma filter_block_lines:
  assumes "header f \<in> H" "[] \<notin> H" "separator \<notin> H"
    and "CHR ''\<newline>'' \<notin> set (path f)"
    and "\<forall>l \<in> set (split_lines (content f)). l \<notin> H"
  shows "filter (\<lambda>l. l \<in> H) (block_lines f) = [header f]"
proof -
  have "CHR ''\<newline>'' \<notin> set (header f)"
    using assms(4) by (simp add: header_def)
  then have "split_lines (header f) = [header f]"
    by (rule split_lines_single)
  moreover have "filter (\<lambda>l. l \<in> H) (split_lines (content f)) = []"
    using assms(5) by (simp add: filter_empty_conv)
  ultimately show ?thesis
    using assms(1-3) by (simp add: block_lines_def)
qed

lemma filter_document_lines:
  assumes "[] \<notin> H" "separator \<notin> H"
    and "\<forall>f \<in> set files. header f \<in> H \<and> CHR ''\<newline>'' \<notin> set (path f) \<and>
           (\<forall>l \<in> set (split_lines (content f)). l \<notin> H)"
  shows "filter (\<lambda>l. l \<in> H) (concat (map block_lines files)) = map header files"
  using assms(3)
proof (induction files)
  case Nil
  show ?case by simp
next
  case (Cons f fs)
  then have "filter (\<lambda>l. l \<in> H) (block_lines f) = [header f]"
    using assms(1,2) by (intro filter_block_lines) simp_all
  with Cons show ?case by simp
qed

lemma count_list_distinct: "distinct xs \<Longrightarrow> x \<in> set xs \<Longrightarrow> count_list xs x = 1"
  by (induction xs) auto

lemma sublist_concat_pair:
  "Suc i < length xss \<Longrightarrow> sublist (xss ! i @ xss ! Suc i) (concat xss)"
proof (induction xss arbitrary: i)
  case Nil
  then show ?case by simp
next
  case (Cons xs xss)
  show ?case
  proof (cases i)
    case 0
    with Cons.prems obtain ys yss where "xss = ys # yss" by (cases xss) auto
    then show ?thesis unfolding 0 sublist_def
      by (intro exI[of _ "[]"] exI[of _ "concat yss"]) simp
  next
    case (Suc j)
    with Cons.prems have "sublist (xss ! j @ xss ! Suc j) (concat xss)"
      by (intro Cons.IH) simp
    then obtain ps ss where "concat xss = ps @ (xss ! j @ xss ! Suc j) @ ss"
      by (auto simp: sublist_def)
    then show ?thesis unfolding Suc sublist_def
      by (intro exI[of _ "xs @ ps"] exI[of _ ss]) simp
  qed
qed

subsection \<open>The format of the blocks\<close>

text \<open>
  C6 as the claim has it: a block is the header line, a separator line, a blank line,
  the content, a blank line and the closing separator line, and one blank line lies
  between two blocks. Then the closing separator line of the first file, one blank
  line and the header line of the second file would follow each other in the document.
  They do not: the template literal opens and closes with a line break and the blocks
  are joined with one more, which makes two blank lines.
\<close>

theorem one_blank_line_between_blocks_counterexample:
  "\<not> sublist [separator, [], ''// Path: b'']
       (split_lines (concatenatedContent [\<lparr>path = ''a'', content = ''x''\<rparr>, \<lparr>path = ''b'', content = ''y''\<rparr>]))
   \<and> split_lines (concatenatedContent [\<lparr>path = ''a'', content = ''x''\<rparr>, \<lparr>path = ''b'', content = ''y''\<rparr>]) =
       [[], ''// Path: a'', separator, [], ''x'', [], separator, [],
        [], ''// Path: b'', separator, [], ''y'', [], separator, []]"
  by code_simp

text \<open>
  C6, amended. The lines of a block are: a blank line, the header line naming the path,
  the separator line, a blank line, the lines of the content as they are, a blank line,
  the separator line again, and the line break that ends it. The lines of the document
  are the lines of the blocks in the order of the input, with nothing between them, so
  that the closing separator line of a file and the header line of the next file have
  exactly two blank lines between them.
\<close>

theorem document_block_format:
  "split_lines (block file) =
     [[]] @ split_lines (''// Path: '' @ path file) @ [separator, []] @
     split_lines (content file) @ [[], separator, []]
   \<and> split_lines (concatenatedContent (file # files)) =
       concat (map (\<lambda>f. split_lines (block f)) (file # files))
   \<and> (\<forall>i. Suc i < length files \<longrightarrow>
         sublist ([separator, [], []] @ split_lines (''// Path: '' @ path (files ! Suc i)))
           (split_lines (concatenatedContent files)))"
proof (intro conjI allI impI)
  show "split_lines (block file) =
     [[]] @ split_lines (''// Path: '' @ path file) @ [separator, []] @
     split_lines (content file) @ [[], separator, []]"
    by (simp add: split_lines_block block_lines_def header_def)
  show "split_lines (concatenatedContent (file # files)) =
       concat (map (\<lambda>f. split_lines (block f)) (file # files))"
    by (simp only: split_lines_document split_lines_block)
next
  fix i assume i: "Suc i < length files"
  then obtain g gs where files: "files = g # gs" by (cases files) auto
  let ?h = "split_lines (''// Path: '' @ path (files ! Suc i))"
  have eq: "split_lines (concatenatedContent files) = concat (map block_lines files)"
    unfolding files by (rule split_lines_document)
  have "sublist (map block_lines files ! i @ map block_lines files ! Suc i)
          (concat (map block_lines files))"
    using i by (intro sublist_concat_pair) simp
  moreover have "map block_lines files ! i = block_lines (files ! i)"
    "map block_lines files ! Suc i = block_lines (files ! Suc i)"
    using i by simp_all
  ultimately have "sublist (block_lines (files ! i) @ block_lines (files ! Suc i))
          (split_lines (concatenatedContent files))"
    by (simp only: eq)
  moreover have "block_lines (files ! i) @ block_lines (files ! Suc i) =
      ([[]] @ split_lines (header (files ! i)) @ [separator, []] @ split_lines (content (files ! i)) @ [[]])
      @ ([separator, [], []] @ ?h)
      @ ([separator, []] @ split_lines (content (files ! Suc i)) @ [[], separator, []])"
    by (simp add: block_lines_def header_def)
  ultimately obtain ps ss where
    "split_lines (concatenatedContent files) =
       ps @ (([[]] @ split_lines (header (files ! i)) @ [separator, []] @ split_lines (content (files ! i)) @ [[]])
      @ ([separator, [], []] @ ?h)
      @ ([separator, []] @ split_lines (content (files ! Suc i)) @ [[], separator, []])) @ ss"
    unfolding sublist_def by metis
  then have "split_lines (concatenatedContent files) =
       (ps @ [[]] @ split_lines (header (files ! i)) @ [separator, []] @ split_lines (content (files ! i)) @ [[]])
      @ ([separator, [], []] @ ?h)
      @ ([separator, []] @ split_lines (content (files ! Suc i)) @ [[], separator, []] @ ss)"
    by simp
  then show "sublist ([separator, [], []] @ ?h) (split_lines (concatenatedContent files))"
    unfolding sublist_def by blast
qed

theorem document_block_format_witness:
  "Suc 0 < length [\<lparr>path = ''a'', content = ''x''\<rparr>, \<lparr>path = ''b'', content = ''y''\<rparr>]
   \<and> sublist [separator, [], [], ''// Path: b'']
       (split_lines (concatenatedContent [\<lparr>path = ''a'', content = ''x''\<rparr>, \<lparr>path = ''b'', content = ''y''\<rparr>]))"
  using document_block_format
    [of "\<lparr>path = ''a'', content = ''x''\<rparr>"
        "[\<lparr>path = ''a'', content = ''x''\<rparr>, \<lparr>path = ''b'', content = ''y''\<rparr>]",
     THEN conjunct2, THEN conjunct2, THEN spec, of 0]
  by simp

subsection \<open>Headers and contents\<close>

text \<open>
  C2 as the claim has it: the path of each file is found exactly once as a header line
  of the document. The content is not escaped, so a file whose content has a line that
  reads like its own header gives a document with that header line twice.
\<close>

theorem header_line_twice_counterexample:
  "count_list
     (split_lines (concatenatedContent [\<lparr>path = ''a'', content = ''// Path: a''\<rparr>]))
     ''// Path: a'' = 2"
  by code_simp

text \<open>
  The same absence of escaping lets the blocks of two files read as the block of one:
  the two documents below are the same text.
\<close>

lemma two_blocks_read_as_one:
  "concatenatedContent [\<lparr>path = ''a'', content = ''x''\<rparr>, \<lparr>path = ''b'', content = ''y''\<rparr>] =
   concatenatedContent
     [\<lparr>path = ''a'',
       content = ''x\<newline>\<newline>'' @ separator @ ''\<newline>\<newline>\<newline>// Path: b\<newline>'' @ separator @ ''\<newline>\<newline>y''\<rparr>]"
  by (simp add: concatenatedContent_def block_def)

text \<open>
  C2, amended. Take files whose paths have no line break and whose contents have no
  line equal to the header line of one of the files. Then the header lines of the
  files found in the document are one per file, in the order of the input; when the
  paths are distinct, each is there exactly once. For any such files, each block is in
  the document with its content as it is, and between the contents of two consecutive
  files there are always the closing separator of the first and the header and opening
  separator of the second.
\<close>

theorem document_headers_and_contents:
  assumes "\<forall>f \<in> set files. CHR ''\<newline>'' \<notin> set (path f) \<and>
             (\<forall>g \<in> set files. (''// Path: '' @ path g) \<notin> set (split_lines (content f)))"
  shows "filter (\<lambda>l. l \<in> set (map (\<lambda>f. ''// Path: '' @ path f) files))
           (split_lines (concatenatedContent files))
         = map (\<lambda>f. ''// Path: '' @ path f) files
       \<and> (distinct (map path files) \<longrightarrow>
            (\<forall>f \<in> set files.
               count_list (split_lines (concatenatedContent files)) (''// Path: '' @ path f) = 1))
       \<and> (\<forall>f \<in> set files.
            sublist (''\<newline>// Path: '' @ path f @ ''\<newline>'' @ separator @ ''\<newline>\<newline>'' @
                     content f @ ''\<newline>\<newline>'' @ separator @ ''\<newline>'')
              (concatenatedContent files))
       \<and> (\<forall>i. Suc i < length files \<longrightarrow>
            sublist (content (files ! i) @ ''\<newline>\<newline>'' @ separator @ ''\<newline>'' @ ''\<newline>'' @
                     ''\<newline>// Path: '' @ path (files ! Suc i) @ ''\<newline>'' @ separator @
                     ''\<newline>\<newline>'' @ content (files ! Suc i))
              (concatenatedContent files))"
proof -
  let ?H = "set (map header files)"
  let ?doc = "concatenatedContent files"
  have hdr: "(\<lambda>f. ''// Path: '' @ path f) = header"
    by (rule ext) (simp add: header_def)
  have filt: "filter (\<lambda>l. l \<in> ?H) (split_lines ?doc) = map header files"
  proof (cases files)
    case Nil
    then show ?thesis by (simp add: concatenatedContent_def)
  next
    case (Cons f fs)
    have "[] \<notin> ?H" by (auto simp: header_def)
    moreover have "separator \<notin> ?H" using separator_not_header by auto
    moreover have "\<forall>f \<in> set files. header f \<in> ?H \<and> CHR ''\<newline>'' \<notin> set (path f) \<and>
           (\<forall>l \<in> set (split_lines (content f)). l \<notin> ?H)"
      using assms by (auto simp: header_def)
    ultimately have "filter (\<lambda>l. l \<in> ?H) (concat (map block_lines files)) = map header files"
      by (rule filter_document_lines)
    then show ?thesis unfolding Cons split_lines_document .
  qed
  have cnt: "count_list (split_lines ?doc) (header f) = 1"
    if d: "distinct (map path files)" and f: "f \<in> set files" for f
  proof -
    have "filter ((=) (header f)) (split_lines ?doc)
        = filter ((=) (header f)) (filter (\<lambda>l. l \<in> ?H) (split_lines ?doc))"
      using f by (auto intro!: filter_cong)
    then have "count_list (split_lines ?doc) (header f) = count_list (map header files) (header f)"
      by (simp only: count_list_eq_length_filter filt)
    moreover have "distinct (map header files)"
      using d by (simp add: header_def distinct_map inj_on_def)
    ultimately show ?thesis using f by (simp add: count_list_distinct)
  qed
  have blk: "sublist (block f) ?doc" if "f \<in> set files" for f
    using that by (rule sublist_block_document)
  have pair: "sublist (content (files ! i) @ block_tail @ ''\<newline>'' @ block_head (files ! Suc i) @
                content (files ! Suc i)) ?doc" if i: "Suc i < length files" for i
  proof -
    from sublist_pair_document[OF i] obtain ps ss where
      "?doc = ps @ (block (files ! i) @ CHR ''\<newline>'' # block (files ! Suc i)) @ ss"
      by (auto simp: sublist_def)
    then have "?doc = (ps @ block_head (files ! i)) @
       (content (files ! i) @ block_tail @ ''\<newline>'' @ block_head (files ! Suc i) @
                content (files ! Suc i)) @ (block_tail @ ss)"
      by (simp add: block_parts)
    then show ?thesis unfolding sublist_def by blast
  qed
  show ?thesis
  proof (intro conjI impI ballI allI)
    show "filter (\<lambda>l. l \<in> set (map (\<lambda>f. ''// Path: '' @ path f) files)) (split_lines ?doc)
         = map (\<lambda>f. ''// Path: '' @ path f) files"
      using filt by (simp only: hdr)
  next
    fix f assume "distinct (map path files)" "f \<in> set files"
    then show "count_list (split_lines ?doc) (''// Path: '' @ path f) = 1"
      using cnt[of f] by (simp add: header_def)
  next
    fix f assume "f \<in> set files"
    then show "sublist (''\<newline>// Path: '' @ path f @ ''\<newline>'' @ separator @ ''\<newline>\<newline>'' @
                     content f @ ''\<newline>\<newline>'' @ separator @ ''\<newline>'') ?doc"
      using blk[of f] by (simp add: block_def)
  next
    fix i assume "Suc i < length files"
    then show "sublist (content (files ! i) @ ''\<newline>\<newline>'' @ separator @ ''\<newline>'' @ ''\<newline>'' @
                     ''\<newline>// Path: '' @ path (files ! Suc i) @ ''\<newline>'' @ separator @
                     ''\<newline>\<newline>'' @ content (files ! Suc i)) ?doc"
      using pair[of i] by (simp add: block_head_def block_tail_def)
  qed
qed

theorem document_headers_and_contents_witness:
  "list_all
     (\<lambda>f. CHR ''\<newline>'' \<notin> set (path f) \<and>
          list_all (\<lambda>g. (''// Path: '' @ path g) \<notin> set (split_lines (content f))) [\<lparr>path = ''a'', content = ''x''\<rparr>, \<lparr>path = ''b'', content = ''y''\<rparr>])
     [\<lparr>path = ''a'', content = ''x''\<rparr>, \<lparr>path = ''b'', content = ''y''\<rparr>]
   \<and> filter (\<lambda>l. l = ''// Path: a'' \<or> l = ''// Path: b'')
         (split_lines (concatenatedContent [\<lparr>path = ''a'', content = ''x''\<rparr>, \<lparr>path = ''b'', content = ''y''\<rparr>]))
       = [''// Path: a'', ''// Path: b'']
   \<and> count_list (split_lines (concatenatedContent [\<lparr>path = ''a'', content = ''x''\<rparr>, \<lparr>path = ''b'', content = ''y''\<rparr>])) ''// Path: b'' = 1"
  using document_headers_and_contents [of "[\<lparr>path = ''a'', content = ''x''\<rparr>, \<lparr>path = ''b'', content = ''y''\<rparr>]"]
  by simp

section \<open>The lifecycle\<close>

lemmas handler_defs =
  handleGenerate_begin_def handleGenerate_catch_def handleGenerate_finally_def
  handleGenerate_overview_def handleGenerate_files_def errorMessage_def

lemmas view_defs = view_def render_def main_region_def generationState_def truthy_def

subsection \<open>Reset\<close>

text \<open>
  C7. The reset: when the open panel is dismissed, whatever the three cells hold
  (idle, loading, an overview or an error), they are all cleared and the state is Idle.
\<close>

theorem reset_yields_idle:
  "isOpen w \<Longrightarrow>
     (\<exists>w'. step w (SetOpen False) = Some w' \<and> \<not> isOpen w' \<and>
            ui w' = \<lparr>isLoading = False, overviewContent = [], error = None\<rparr> \<and>
            generationState (ui w') = Idle)"
  by (simp add: useEffect_isOpen_def generationState_def truthy_def)

theorem reset_yields_idle_witness:
  "isOpen \<lparr>isOpen = True, marked = None,
           ui = \<lparr>isLoading = True, overviewContent = ''text'', error = Some ''message''\<rparr>,
           attempts = [AwaitingOverview], requests = [''document'']\<rparr>
   \<and> map_option (\<lambda>w'. generationState (ui w'))
       (step \<lparr>isOpen = True, marked = None,
           ui = \<lparr>isLoading = True, overviewContent = ''text'', error = Some ''message''\<rparr>,
           attempts = [AwaitingOverview], requests = [''document'']\<rparr> (SetOpen False))
     = Some Idle"
  using reset_yields_idle [of "\<lparr>isOpen = True, marked = None,
           ui = \<lparr>isLoading = True, overviewContent = ''text'', error = Some ''message''\<rparr>,
           attempts = [AwaitingOverview], requests = [''document'']\<rparr>"]
  by auto

subsection \<open>Failures\<close>

lemma failure_state:
  "generationState (handleGenerate_finally (handleGenerate_catch err st)) =
     Failure (''Failed to generate overview: '' @ errorMessage err)"
  by (simp add: handleGenerate_finally_def handleGenerate_catch_def generationState_def truthy_def)

text \<open>
  C1. When the fetch of an attempt resolves with no file at all, the handler throws its
  own error and lands in the catch clause: the state becomes Failure with the fixed
  message about no readable files (behind the prefix every failure gets), whatever the
  cells held before. The line that calls the generation service is never reached: the
  list of requests is unchanged, the attempt is over, and no answer of the service can
  be taken for it any more.
\<close>

theorem no_files_failure:
  assumes "i < length (attempts w)" and "attempts w ! i = AwaitingFiles"
  shows "\<exists>w'. step w (FilesSettle i (Resolved [])) = Some w' \<and>
           generationState (ui w') =
             Failure ''Failed to generate overview: No readable files found in the repository to generate an overview.'' \<and>
           requests w' = requests w \<and>
           attempts w' ! i = Settled \<and>
           (\<forall>r. step w' (OverviewSettle i r) = None)"
  using assms by (simp add: handler_defs view_defs noFilesMessage_def)

theorem no_files_failure_witness:
  "attempts \<lparr>isOpen = True, marked = None,
            ui = \<lparr>isLoading = True, overviewContent = [], error = None\<rparr>,
            attempts = [AwaitingFiles], requests = []\<rparr> ! 0 = AwaitingFiles
   \<and> map_option (\<lambda>w'. (generationState (ui w'), requests w'))
     (step \<lparr>isOpen = True, marked = None,
            ui = \<lparr>isLoading = True, overviewContent = [], error = None\<rparr>,
            attempts = [AwaitingFiles], requests = []\<rparr>
        (FilesSettle 0 (Resolved [])))
   = Some (Failure ''Failed to generate overview: No readable files found in the repository to generate an overview.'', [])"
  using no_files_failure [of 0 "\<lparr>isOpen = True, marked = None,
            ui = \<lparr>isLoading = True, overviewContent = [], error = None\<rparr>,
            attempts = [AwaitingFiles], requests = []\<rparr>"]
  by auto

text \<open>
  C3. When the promise an attempt is waiting for is rejected, be it the fetch of the
  files or the generation request, the state becomes Failure. Its message is the
  prefix \<open>Failed to generate overview: \<close> followed by the message of the error when
  the rejection is an \<^verbatim>\<open>Error\<close> object, and by \<open>An unknown error occurred.\<close> for any
  other value. A rejection with the message \<open>quota exceeded\<close> gives a Failure whose
  message contains \<open>quota exceeded\<close>.
\<close>

theorem rejection_failure:
  assumes "i < length (attempts w)"
    and "attempts w ! i = AwaitingFiles \<and> e = FilesSettle i (Rejected err) \<or>
         attempts w ! i = AwaitingOverview \<and> e = OverviewSettle i (Rejected err)"
  shows "\<exists>w'. step w e = Some w' \<and>
           generationState (ui w') =
             Failure (''Failed to generate overview: '' @
                (case err of ErrorObject message \<Rightarrow> message
                           | OtherValue \<Rightarrow> ''An unknown error occurred.'')) \<and>
           requests w' = requests w \<and>
           attempts w' ! i = Settled \<and>
           (err = ErrorObject ''quota exceeded'' \<longrightarrow>
              (\<exists>m. generationState (ui w') = Failure m \<and> sublist ''quota exceeded'' m))"
proof -
  let ?m = "''Failed to generate overview: '' @
                (case err of ErrorObject message \<Rightarrow> message
                           | OtherValue \<Rightarrow> ''An unknown error occurred.'')"
  let ?w' = "w\<lparr>ui := handleGenerate_finally (handleGenerate_catch err (ui w)),
               attempts := (attempts w)[i := Settled]\<rparr>"
  have st: "step w e = Some ?w'"
    using assms by (auto simp add: handleGenerate_files_def handleGenerate_overview_def)
  have g: "generationState (ui ?w') = Failure ?m"
    by (simp add: failure_state errorMessage_def)
  have q: "err = ErrorObject ''quota exceeded'' \<longrightarrow> sublist ''quota exceeded'' ?m"
  proof
    assume "err = ErrorObject ''quota exceeded''"
    then have "?m = ''Failed to generate overview: '' @ ''quota exceeded''" by simp
    then show "sublist ''quota exceeded'' ?m" by (simp only: sublist_append_leftI)
  qed
  have "requests ?w' = requests w" and "attempts ?w' ! i = Settled"
    using assms(1) by simp_all
  moreover have "err = ErrorObject ''quota exceeded'' \<longrightarrow>
      (\<exists>m. generationState (ui ?w') = Failure m \<and> sublist ''quota exceeded'' m)"
    using g q by blast
  ultimately show ?thesis
    using st g by blast
qed

theorem rejection_failure_witness:
  "attempts \<lparr>isOpen = True, marked = None,
            ui = \<lparr>isLoading = True, overviewContent = [], error = None\<rparr>,
            attempts = [AwaitingOverview], requests = [''document'']\<rparr> ! 0 = AwaitingOverview
   \<and> map_option (\<lambda>w'. generationState (ui w'))
     (step \<lparr>isOpen = True, marked = None,
            ui = \<lparr>isLoading = True, overviewContent = [], error = None\<rparr>,
            attempts = [AwaitingOverview], requests = [''document'']\<rparr>
        (OverviewSettle 0 (Rejected (ErrorObject ''quota exceeded''))))
   = Some (Failure ''Failed to generate overview: quota exceeded'')
   \<and> sublist ''quota exceeded'' ''Failed to generate overview: quota exceeded''"
  using rejection_failure [of 0 "\<lparr>isOpen = True, marked = None,
            ui = \<lparr>isLoading = True, overviewContent = [], error = None\<rparr>,
            attempts = [AwaitingOverview], requests = [''document'']\<rparr>"
          "OverviewSettle 0 (Rejected (ErrorObject ''quota exceeded''))"
          "ErrorObject ''quota exceeded''"]
  by auto

subsection \<open>Every attempt ends outside Loading\<close>

text \<open>An attempt that waits can always take the settling of its promise.\<close>

lemma pending_attempt_settles:
  assumes "i < length (attempts w)"
  shows "attempts w ! i = AwaitingFiles \<Longrightarrow>
           \<exists>w'. step w (FilesSettle i r) = Some w' \<and>
                 (attempts w' ! i = Settled \<or> attempts w' ! i = AwaitingOverview)"
    and "attempts w ! i = AwaitingOverview \<Longrightarrow>
           \<exists>w'. step w (OverviewSettle i r') = Some w' \<and> attempts w' ! i = Settled"
  using assms by (auto split: sum.splits)

text \<open>
  C10. Whatever event ends an attempt (a rejected or empty fetch, a rejected or an
  answered generation request), the \<^verbatim>\<open>finally\<close> clause has run when the attempt is
  over: \<open>isLoading\<close> is false and the state is not Loading.
\<close>

theorem settled_attempt_leaves_loading:
  assumes "step w e = Some w'"
    and "i < length (attempts w)"
    and "attempts w ! i \<noteq> Settled"
    and "attempts w' ! i = Settled"
  shows "\<not> isLoading (ui w') \<and> generationState (ui w') \<noteq> Loading"
proof -
  have "\<not> isLoading (ui w')"
  proof (cases e)
    case (SetOpen b)
    with assms show ?thesis by (auto split: if_splits)
  next
    case Click
    with assms show ?thesis by (auto simp add: nth_append split: if_splits)
  next
    case (FilesSettle j r)
    with assms show ?thesis
      by (auto simp add: handleGenerate_finally_def nth_list_update split: if_splits sum.splits)
  next
    case (OverviewSettle j r)
    with assms show ?thesis
      by (auto simp add: handleGenerate_overview_def handleGenerate_finally_def nth_list_update
          split: if_splits)
  qed
  then show ?thesis by (simp add: generationState_def)
qed

theorem settled_attempt_leaves_loading_witness:
  "step \<lparr>isOpen = True, marked = None,
         ui = \<lparr>isLoading = True, overviewContent = [], error = None\<rparr>,
         attempts = [AwaitingOverview], requests = [''document'']\<rparr>
     (OverviewSettle 0 (Resolved ''overview''))
   = Some \<lparr>isOpen = True, marked = None,
         ui = \<lparr>isLoading = False, overviewContent = ''overview'', error = None\<rparr>,
         attempts = [Settled], requests = [''document'']\<rparr>
   \<and> generationState \<lparr>isLoading = False, overviewContent = ''overview'', error = None\<rparr>
       \<noteq> Loading"
  using settled_attempt_leaves_loading
    [of "\<lparr>isOpen = True, marked = None,
         ui = \<lparr>isLoading = True, overviewContent = [], error = None\<rparr>,
         attempts = [AwaitingOverview], requests = [''document'']\<rparr>"
        "OverviewSettle 0 (Resolved ''overview'')"
        "\<lparr>isOpen = True, marked = None,
         ui = \<lparr>isLoading = False, overviewContent = ''overview'', error = None\<rparr>,
         attempts = [Settled], requests = [''document'']\<rparr>" 0]
  by (simp add: handler_defs)

subsection \<open>A response that arrives after the reset\<close>

text \<open>
  C5 as the claim has it: once the panel was dismissed during a generation request, the
  state stays Idle when the response arrives. The handler keeps no attempt number and
  no cancellation flag: the continuation after the await writes the cells as if
  nothing had happened. Below, the state is Idle after the dismissal and Success after
  the late response, and the panel opened again shows the article.
\<close>

theorem late_response_counterexample:
  "map_option (\<lambda>w. generationState (ui w))
     (run (mounted None)
        [SetOpen True, Click,
         FilesSettle 0 (Resolved [\<lparr>path = ''a'', content = ''x''\<rparr>]),
         SetOpen False])
   = Some Idle
   \<and> map_option (\<lambda>w. generationState (ui w))
     (run (mounted None)
        [SetOpen True, Click,
         FilesSettle 0 (Resolved [\<lparr>path = ''a'', content = ''x''\<rparr>]),
         SetOpen False,
         OverviewSettle 0 (Resolved ''overview'')])
   = Some (Success ''overview'')
   \<and> map_option view
     (run (mounted None)
        [SetOpen True, Click,
         FilesSettle 0 (Resolved [\<lparr>path = ''a'', content = ''x''\<rparr>]),
         SetOpen False,
         OverviewSettle 0 (Resolved ''overview''),
         SetOpen True])
   = Some (Some (Article []))"
  by (simp add: mounted_def initial_state_def useEffect_isOpen_def handler_defs view_defs
      renderedHtml_def)

text \<open>
  C5, amended. Dismissing the open panel while attempt \<open>i\<close> waits for the generation
  service gives Idle at once and leaves the attempt waiting. When its response then
  arrives, it is applied: an overview that is not empty gives Success with that text,
  a rejection gives Failure with the wrapped message; only an empty overview leaves
  the state Idle.
\<close>

theorem late_response_applied:
  assumes "isOpen w" and "i < length (attempts w)" and "attempts w ! i = AwaitingOverview"
  shows "\<exists>w1. step w (SetOpen False) = Some w1 \<and>
           generationState (ui w1) = Idle \<and>
           attempts w1 ! i = AwaitingOverview \<and>
           (\<exists>w2. step w1 (OverviewSettle i (Resolved overview)) = Some w2 \<and>
                 generationState (ui w2) = (if overview = [] then Idle else Success overview)) \<and>
           (\<exists>w3. step w1 (OverviewSettle i (Rejected err)) = Some w3 \<and>
                 generationState (ui w3) =
                   Failure (''Failed to generate overview: '' @
                     (case err of ErrorObject message \<Rightarrow> message
                                | OtherValue \<Rightarrow> ''An unknown error occurred.'')))"
  using assms by (simp add: useEffect_isOpen_def handler_defs view_defs)

theorem late_response_applied_witness:
  "isOpen \<lparr>isOpen = True, marked = None,
            ui = \<lparr>isLoading = True, overviewContent = [], error = None\<rparr>,
            attempts = [AwaitingOverview], requests = [''document'']\<rparr>
   \<and> attempts \<lparr>isOpen = True, marked = None,
            ui = \<lparr>isLoading = True, overviewContent = [], error = None\<rparr>,
            attempts = [AwaitingOverview], requests = [''document'']\<rparr> ! 0 = AwaitingOverview
   \<and> map_option (\<lambda>w. generationState (ui w))
     (run \<lparr>isOpen = True, marked = None,
           ui = \<lparr>isLoading = True, overviewContent = [], error = None\<rparr>,
           attempts = [AwaitingOverview], requests = [''document'']\<rparr>
        [SetOpen False, OverviewSettle 0 (Rejected (ErrorObject ''late''))])
   = Some (Failure ''Failed to generate overview: late'')"
  using late_response_applied
    [of "\<lparr>isOpen = True, marked = None,
           ui = \<lparr>isLoading = True, overviewContent = [], error = None\<rparr>,
           attempts = [AwaitingOverview], requests = [''document'']\<rparr>" 0
        "''overview''" "ErrorObject ''late''"]
  by auto

section \<open>What is on screen\<close>

subsection \<open>An overview without the engine\<close>

text \<open>
  C4 as the claim has it: without the formatting engine, the output for a Success with
  the content \<open>## Summary\<close> still contains \<open>Summary\<close>. Line 76 gives the empty
  string when the engine is absent, and the article is drawn with it.
\<close>

theorem no_engine_empty_output_counterexample:
  "map_option (\<lambda>w. (generationState (ui w), view w))
     (run (mounted None)
        [SetOpen True, Click,
         FilesSettle 0 (Resolved [\<lparr>path = ''a'', content = ''x''\<rparr>]),
         OverviewSettle 0 (Resolved ''## Summary'')])
   = Some (Success ''## Summary'', Some (Article []))"
  by (simp add: mounted_def initial_state_def useEffect_isOpen_def handler_defs view_defs
      renderedHtml_def)

text \<open>
  C4, amended. In a Success state the content is not empty and the open panel shows the
  article. With an engine, the article holds what the engine makes of the content;
  without one, the article is empty and the content is not shown.
\<close>

theorem success_rendering:
  "generationState st = Success c \<Longrightarrow>
     c \<noteq> [] \<and>
     render True None st = Some (Article []) \<and>
     render True (Some parse) st = Some (Article (parse c))"
  by (auto simp add: view_defs renderedHtml_def split: if_splits)

theorem success_rendering_witness:
  "generationState \<lparr>isLoading = False, overviewContent = ''## Summary'', error = None\<rparr>
     = Success ''## Summary''
   \<and> render True None \<lparr>isLoading = False, overviewContent = ''## Summary'', error = None\<rparr>
     = Some (Article [])
   \<and> render True (Some (\<lambda>s. ''<h2>'' @ drop 3 s @ ''</h2>''))
        \<lparr>isLoading = False, overviewContent = ''## Summary'', error = None\<rparr>
     = Some (Article ''<h2>Summary</h2>'')"
proof -
  have s: "generationState \<lparr>isLoading = False, overviewContent = ''## Summary'', error = None\<rparr>
     = Success ''## Summary''"
    by (simp add: generationState_def truthy_def)
  show ?thesis
    using s success_rendering [OF s, of "\<lambda>s. ''<h2>'' @ drop 3 s @ ''</h2>''"] by simp
qed

subsection \<open>An empty overview\<close>

text \<open>
  C9. From a panel that shows the call to action, an attempt that fetches some files
  and whose generation request resolves with the empty string ends with the three
  cells as they were at the start: the state is Idle, the panel shows the call to
  action and not an article, and the button can be clicked again.
\<close>

theorem empty_overview_shows_call_to_action:
  assumes "view w = Some CallToAction" and "files \<noteq> []"
  shows "\<exists>w'. run w [Click,
                     FilesSettle (length (attempts w)) (Resolved files),
                     OverviewSettle (length (attempts w)) (Resolved [])] = Some w' \<and>
           ui w' = \<lparr>isLoading = False, overviewContent = [], error = None\<rparr> \<and>
           generationState (ui w') = Idle \<and>
           view w' = Some CallToAction \<and>
           (\<exists>w''. step w' Click = Some w'')"
  using assms
  by (auto simp add: handler_defs view_defs nth_append split: if_splits)

theorem empty_overview_shows_call_to_action_witness:
  "view (mounted None\<lparr>isOpen := True\<rparr>) = Some CallToAction
   \<and> map_option view
       (run (mounted None\<lparr>isOpen := True\<rparr>)
          [Click, FilesSettle 0 (Resolved [\<lparr>path = ''a'', content = ''x''\<rparr>]),
           OverviewSettle 0 (Resolved [])])
     = Some (Some CallToAction)"
  using empty_overview_shows_call_to_action
    [of "mounted None\<lparr>isOpen := True\<rparr>" "[\<lparr>path = ''a'', content = ''x''\<rparr>]"]
  by (auto simp add: mounted_def initial_state_def view_defs handler_defs)

subsection \<open>The region of a reachable state\<close>

text \<open>No event stores an empty error message.\<close>

lemma step_error_nonempty:
  assumes "step w e = Some w'" and "error (ui w) \<noteq> Some []"
  shows "error (ui w') \<noteq> Some []"
proof (cases e)
  case (SetOpen b)
  with assms show ?thesis by (auto simp add: useEffect_isOpen_def split: if_splits)
next
  case Click
  with assms show ?thesis by (auto simp add: handleGenerate_begin_def split: if_splits)
next
  case (FilesSettle j r)
  with assms show ?thesis
    by (auto simp add: handleGenerate_finally_def handleGenerate_catch_def
        split: if_splits sum.splits)
next
  case (OverviewSettle j r)
  with assms show ?thesis
    by (auto simp add: handleGenerate_overview_def handleGenerate_finally_def
        handleGenerate_catch_def split: if_splits settled.splits)
qed

lemma run_error_nonempty:
  "run w es = Some w' \<Longrightarrow> error (ui w) \<noteq> Some [] \<Longrightarrow> error (ui w') \<noteq> Some []"
proof (induction es arbitrary: w)
  case Nil
  then show ?case by simp
next
  case (Cons e es)
  then obtain w1 where s: "step w e = Some w1" and r: "run w1 es = Some w'"
    by (auto split: option.splits)
  from s Cons.prems(2) have "error (ui w1) \<noteq> Some []" by (rule step_error_nonempty)
  with r show ?case by (rule Cons.IH)
qed

text \<open>While the loading flag is up, the other two cells are empty.\<close>

lemma step_loading_clean:
  assumes "step w e = Some w'"
    and "isLoading (ui w) \<longrightarrow> overviewContent (ui w) = [] \<and> error (ui w) = None"
  shows "isLoading (ui w') \<longrightarrow> overviewContent (ui w') = [] \<and> error (ui w') = None"
proof (cases e)
  case (SetOpen b)
  with assms show ?thesis by (auto simp add: useEffect_isOpen_def split: if_splits)
next
  case Click
  with assms show ?thesis by (auto simp add: handleGenerate_begin_def split: if_splits)
next
  case (FilesSettle j r)
  with assms show ?thesis
    by (auto simp add: handleGenerate_finally_def split: if_splits sum.splits)
next
  case (OverviewSettle j r)
  with assms show ?thesis
    by (auto simp add: handleGenerate_overview_def handleGenerate_finally_def split: if_splits)
qed

lemma run_loading_clean:
  "run w es = Some w' \<Longrightarrow>
   isLoading (ui w) \<longrightarrow> overviewContent (ui w) = [] \<and> error (ui w) = None \<Longrightarrow>
   isLoading (ui w') \<longrightarrow> overviewContent (ui w') = [] \<and> error (ui w') = None"
proof (induction es arbitrary: w)
  case Nil
  then show ?case by simp
next
  case (Cons e es)
  then obtain w1 where s: "step w e = Some w1" and r: "run w1 es = Some w'"
    by (auto split: option.splits)
  from s Cons.prems(2)
  have "isLoading (ui w1) \<longrightarrow> overviewContent (ui w1) = [] \<and> error (ui w1) = None"
    by (rule step_loading_clean)
  with r show ?case by (rule Cons.IH)
qed

text \<open>
  C8 as the claim has it: in every reachable state exactly one of the four states is
  active and exactly one region is shown. Two reachable states stand against it. The
  component as mounted is closed and draws no region at all (lines 78 to 80). And
  since a response is applied whenever it arrives, two attempts can leave their
  results side by side: below, the first attempt is still waiting when the panel is
  closed, opened again and a second attempt started; the overview of the first and
  the failure of the second then sit in the cells together, the payload of a Success
  and the payload of a Failure at once, and the panel shows the error only.
\<close>

theorem two_payloads_or_no_region_counterexample:
  "view (mounted None) = None
   \<and> map_option (\<lambda>w. (isOpen w, ui w, view w))
       (run (mounted None)
          [SetOpen True, Click,
           FilesSettle 0 (Resolved [\<lparr>path = ''a'', content = ''x''\<rparr>]),
           SetOpen False, SetOpen True, Click,
           OverviewSettle 0 (Resolved ''first''),
           FilesSettle 1 (Rejected (ErrorObject ''second''))])
     = Some (True,
             \<lparr>isLoading = False, overviewContent = ''first'',
              error = Some ''Failed to generate overview: second''\<rparr>,
             Some (ErrorDisplay ''Failed to generate overview: second''))"
  by (simp add: mounted_def initial_state_def useEffect_isOpen_def handler_defs view_defs)

text \<open>
  C8, amended. In every state the component can reach from its mounting: a closed
  panel shows no region, and an open panel shows the region its cells select, in
  this order: the loading indicator exactly when the loading flag is up, and then
  neither an overview nor an error message is held; otherwise the error display
  exactly when an error message is stored, with that message, which is never empty;
  otherwise the article exactly when the overview is not empty; and the call to
  action exactly when the three cells are the initial ones. The cells are not
  exclusive outside loading: an overview and an error message can be held together.
\<close>

theorem region_of_reachable_state:
  assumes "run (mounted engine) es = Some w"
  shows "(\<not> isOpen w \<longrightarrow> view w = None)
       \<and> (isOpen w \<longrightarrow>
            (view w = Some LoadingIndicator) = isLoading (ui w) \<and>
            (\<forall>m. (view w = Some (ErrorDisplay m)) =
                   (\<not> isLoading (ui w) \<and> error (ui w) = Some m)) \<and>
            (\<forall>html. (view w = Some (Article html)) =
                   (\<not> isLoading (ui w) \<and> error (ui w) = None \<and>
                    overviewContent (ui w) \<noteq> [] \<and>
                    html = renderedHtml (marked w) (ui w))) \<and>
            (view w = Some CallToAction) = (ui w = initial_state))
       \<and> (isLoading (ui w) \<longrightarrow> overviewContent (ui w) = [] \<and> error (ui w) = None)
       \<and> error (ui w) \<noteq> Some []"
proof -
  have e0: "error (ui (mounted engine)) \<noteq> Some []"
    by (simp add: mounted_def initial_state_def)
  with assms have inv: "error (ui w) \<noteq> Some []" by (rule run_error_nonempty)
  have "isLoading (ui (mounted engine)) \<longrightarrow>
      overviewContent (ui (mounted engine)) = [] \<and> error (ui (mounted engine)) = None"
    by (simp add: mounted_def initial_state_def)
  with assms have clean: "isLoading (ui w) \<longrightarrow> overviewContent (ui w) = [] \<and> error (ui w) = None"
    by (rule run_loading_clean)
  have closed: "\<not> isOpen w \<longrightarrow> view w = None"
    by (simp add: view_def render_def)
  have init: "(ui w = initial_state) =
      (\<not> isLoading (ui w) \<and> error (ui w) = None \<and> overviewContent (ui w) = [])"
    by (cases "ui w") (auto simp add: initial_state_def)
  have "open": "isOpen w \<longrightarrow>
            (view w = Some LoadingIndicator) = isLoading (ui w) \<and>
            (\<forall>m. (view w = Some (ErrorDisplay m)) =
                   (\<not> isLoading (ui w) \<and> error (ui w) = Some m)) \<and>
            (\<forall>html. (view w = Some (Article html)) =
                   (\<not> isLoading (ui w) \<and> error (ui w) = None \<and>
                    overviewContent (ui w) \<noteq> [] \<and>
                    html = renderedHtml (marked w) (ui w))) \<and>
            (view w = Some CallToAction) = (ui w = initial_state)"
    unfolding init using inv
    by (cases "error (ui w)") (auto simp add: view_def render_def main_region_def truthy_def)
  from closed "open" clean inv show ?thesis by blast
qed

theorem region_of_reachable_state_witness:
  "run (mounted None)
          [SetOpen True, Click,
           FilesSettle 0 (Resolved [\<lparr>path = ''a'', content = ''x''\<rparr>]),
           SetOpen False, SetOpen True, Click,
           OverviewSettle 0 (Resolved ''first''),
           FilesSettle 1 (Rejected (ErrorObject ''second''))]
     = Some \<lparr>isOpen = True, marked = None,
             ui = \<lparr>isLoading = False, overviewContent = ''first'',
                   error = Some ''Failed to generate overview: second''\<rparr>,
             attempts = [Settled, Settled],
             requests = [concatenatedContent [\<lparr>path = ''a'', content = ''x''\<rparr>]]\<rparr>
   \<and> view \<lparr>isOpen = True, marked = None,
             ui = \<lparr>isLoading = False, overviewContent = ''first'',
                   error = Some ''Failed to generate overview: second''\<rparr>,
             attempts = [Settled, Settled],
             requests = [concatenatedContent [\<lparr>path = ''a'', content = ''x''\<rparr>]]\<rparr>
     = Some (ErrorDisplay ''Failed to generate overview: second'')"
  using region_of_reachable_state
    [of None
        "[SetOpen True, Click,
           FilesSettle 0 (Resolved [\<lparr>path = ''a'', content = ''x''\<rparr>]),
           SetOpen False, SetOpen True, Click,
           OverviewSettle 0 (Resolved ''first''),
           FilesSettle 1 (Rejected (ErrorObject ''second''))]"
        "\<lparr>isOpen = True, marked = None,
             ui = \<lparr>isLoading = False, overviewContent = ''first'',
                   error = Some ''Failed to generate overview: second''\<rparr>,
             attempts = [Settled, Settled],
             requests = [concatenatedContent [\<lparr>path = ''a'', content = ''x''\<rparr>]]\<rparr>"]
  by (simp add: mounted_def initial_state_def useEffect_isOpen_def handleGenerate_begin_def
      handleGenerate_catch_def handleGenerate_finally_def handleGenerate_overview_def
      handleGenerate_files_def errorMessage_def view_def render_def main_region_def truthy_def)

end
